theory Spec2Isabelle
  imports Complex_Main "HOL-Library.Word"
begin

section \<open>Transport channel and reconnection manager (hook \<open>useWebSocket\<close>)\<close>

text \<open>
  The hook keeps its mutable state in React refs. The model is a record of these refs
  together with the part of the browser the code talks to: the sockets created so far
  (a socket's identity is its index), the timeouts that are pending, and the frames
  handed to \<open>WebSocket.send\<close>. The caller's \<open>onOpen\<close>, \<open>onClose\<close> and \<open>onError\<close>
  callbacks only log and are left out.
\<close>

datatype readyState = CONNECTING | OPEN | CLOSING | CLOSED

record socket =
  readyState :: readyState
  onclose :: bool \<comment> \<open>the \<open>onclose\<close> handler installed by \<open>connect\<close> is still attached\<close>

type_synonym ArrayBuffer = "8 word list"

datatype frame =
  TextFrame "(string \<times> string) list" \<comment> \<open>\<open>JSON.stringify\<close> of a command object\<close>
| BinaryFrame ArrayBuffer \<comment> \<open>an \<open>ArrayBuffer\<close> sent as it is\<close>

record ws_hook =
  isConnected :: bool
  sockets :: "socket list"
  wsRef :: "nat option"
  reconnectAttemptsRef :: nat
  reconnectTimerRef :: "nat option" \<comment> \<open>a timer id; ids start at 1, so an id is truthy\<close>
  intentionalCloseRef :: bool
  timers :: "(nat \<times> nat) list" \<comment> \<open>pending timeouts: id and delay in ms\<close>
  timerCount :: nat \<comment> \<open>timer ids handed out so far\<close>
  sent :: "(nat \<times> frame) list" \<comment> \<open>socket and payload of every \<open>send\<close>\<close>

definition RECONNECT_BASE_DELAY :: nat where
  "RECONNECT_BASE_DELAY = 1000"

definition hook_init :: ws_hook where
  "hook_init = \<lparr>isConnected = False, sockets = [], wsRef = None, reconnectAttemptsRef = 0,
     reconnectTimerRef = None, intentionalCloseRef = False, timers = [], timerCount = 0,
     sent = []\<rparr>"

definition upd_socket :: "nat \<Rightarrow> (socket \<Rightarrow> socket) \<Rightarrow> ws_hook \<Rightarrow> ws_hook" where
  "upd_socket i f s =
     (if i < length (sockets s) then s\<lparr>sockets := (sockets s)[i := f (sockets s ! i)]\<rparr> else s)"

text \<open>\<open>wsRef.current?.readyState === WebSocket.OPEN\<close>\<close>

definition ref_open :: "ws_hook \<Rightarrow> bool" where
  "ref_open s =
     (case wsRef s of None \<Rightarrow> False
      | Some i \<Rightarrow> i < length (sockets s) \<and> readyState (sockets s ! i) = OPEN)"

text \<open>
  \<open>WebSocket.close()\<close>: nothing happens on a socket that is closing or closed; otherwise
  the socket starts closing, and its close event is delivered later (\<open>on_close\<close>).
\<close>

definition ws_close :: "nat \<Rightarrow> ws_hook \<Rightarrow> ws_hook" where
  "ws_close i s =
     upd_socket i (\<lambda>k. if readyState k = CLOSING \<or> readyState k = CLOSED then k
                        else k\<lparr>readyState := CLOSING\<rparr>) s"

definition clearTimeout :: "nat \<Rightarrow> ws_hook \<Rightarrow> ws_hook" where
  "clearTimeout t s = s\<lparr>timers := filter (\<lambda>p. fst p \<noteq> t) (timers s)\<rparr>"

definition setTimeout :: "nat \<Rightarrow> ws_hook \<Rightarrow> nat \<times> ws_hook" where
  "setTimeout delay s =
     (let t = timerCount s + 1 in (t, s\<lparr>timers := timers s @ [(t, delay)], timerCount := t\<rparr>))"

definition connect :: "ws_hook \<Rightarrow> ws_hook" where
  "connect s =
     (if ref_open s then s
      else
        let s1 = (case wsRef s of None \<Rightarrow> s
                  | Some i \<Rightarrow> ws_close i (upd_socket i (\<lambda>k. k\<lparr>onclose := False\<rparr>) s));
            s2 = s1\<lparr>intentionalCloseRef := False\<rparr>;
            ws = length (sockets s2)
        in s2\<lparr>sockets := sockets s2 @ [\<lparr>readyState = CONNECTING, onclose = True\<rparr>],
              wsRef := Some ws\<rparr>)"

text \<open>The open event of socket \<open>i\<close> runs the \<open>onopen\<close> handler.\<close>

definition on_open :: "nat \<Rightarrow> ws_hook \<Rightarrow> ws_hook" where
  "on_open i s =
     (if i < length (sockets s) \<and> readyState (sockets s ! i) = CONNECTING
      then (upd_socket i (\<lambda>k. k\<lparr>readyState := OPEN\<rparr>) s)
             \<lparr>isConnected := True, reconnectAttemptsRef := 0\<rparr>
      else s)"

text \<open>
  The close event of socket \<open>i\<close> (a connection that failed, was lost, or finished closing)
  runs the \<open>onclose\<close> handler if it is still attached. \<open>maxA\<close> is the option
  \<open>maxReconnectAttempts\<close>.
\<close>

definition on_close :: "nat \<Rightarrow> nat \<Rightarrow> ws_hook \<Rightarrow> ws_hook" where
  "on_close maxA i s =
     (if i < length (sockets s) \<and> readyState (sockets s ! i) \<noteq> CLOSED then
        let s1 = upd_socket i (\<lambda>k. k\<lparr>readyState := CLOSED\<rparr>) s in
        if onclose (sockets s ! i) then
          let s2 = s1\<lparr>isConnected := False\<rparr> in
          if \<not> intentionalCloseRef s2 \<and> reconnectAttemptsRef s2 < maxA then
            let delay = RECONNECT_BASE_DELAY * 2 ^ reconnectAttemptsRef s2;
                (t, s3) = setTimeout delay s2
            in s3\<lparr>reconnectTimerRef := Some t\<rparr>
          else s2
        else s1
      else s)"

text \<open>The callback of the reconnect timeout \<open>t\<close>, if that timeout is still pending.\<close>

definition timer_fire :: "nat \<Rightarrow> ws_hook \<Rightarrow> ws_hook" where
  "timer_fire t s =
     (if t \<in> fst ` set (timers s)
      then connect ((clearTimeout t s)\<lparr>reconnectAttemptsRef := reconnectAttemptsRef s + 1\<rparr>)
      else s)"

definition disconnect :: "ws_hook \<Rightarrow> ws_hook" where
  "disconnect s =
     (let s1 = s\<lparr>intentionalCloseRef := True\<rparr>;
          s2 = (case reconnectTimerRef s1 of None \<Rightarrow> s1
                | Some t \<Rightarrow> (clearTimeout t s1)\<lparr>reconnectTimerRef := None\<rparr>);
          s3 = s2\<lparr>reconnectAttemptsRef := 0\<rparr>
      in case wsRef s3 of None \<Rightarrow> s3
         | Some i \<Rightarrow> (ws_close i s3)\<lparr>wsRef := None\<rparr>)"

text \<open>The cleanup of the unmount effect.\<close>

definition unmount :: "ws_hook \<Rightarrow> ws_hook" where
  "unmount s =
     (let s1 = s\<lparr>intentionalCloseRef := True\<rparr>;
          s2 = (case reconnectTimerRef s1 of None \<Rightarrow> s1 | Some t \<Rightarrow> clearTimeout t s1)
      in disconnect s2)"

definition sendMessage :: "(string \<times> string) list \<Rightarrow> ws_hook \<Rightarrow> ws_hook" where
  "sendMessage message s =
     (if ref_open s then s\<lparr>sent := sent s @ [(the (wsRef s), TextFrame message)]\<rparr> else s)"

definition sendAudio :: "ArrayBuffer \<Rightarrow> ws_hook \<Rightarrow> ws_hook" where
  "sendAudio audioData s =
     (if ref_open s then s\<lparr>sent := sent s @ [(the (wsRef s), BinaryFrame audioData)]\<rparr> else s)"

definition sendTranscript :: "string \<Rightarrow> string \<Rightarrow> ws_hook \<Rightarrow> ws_hook" where
  "sendTranscript text speaker =
     sendMessage [(''type'', ''transcript''), (''text'', text), (''speaker'', speaker)]"

definition endSession :: "ws_hook \<Rightarrow> ws_hook" where
  "endSession = sendMessage [(''type'', ''end'')]"

definition pauseSession :: "ws_hook \<Rightarrow> ws_hook" where
  "pauseSession = sendMessage [(''type'', ''pause'')]"

definition resumeSession :: "ws_hook \<Rightarrow> ws_hook" where
  "resumeSession = sendMessage [(''type'', ''resume'')]"

definition triggerSafetyCheck :: "ws_hook \<Rightarrow> ws_hook" where
  "triggerSafetyCheck = sendMessage [(''type'', ''check_safety'')]"

text \<open>Everything that can happen to the hook, and a run of such events.\<close>

datatype ws_event =
  Connect | Disconnect | Unmount
| SockOpen nat | SockClose nat | TimerFire nat
| SendMessage "(string \<times> string) list" | SendAudio ArrayBuffer

fun ws_step :: "nat \<Rightarrow> ws_hook \<Rightarrow> ws_event \<Rightarrow> ws_hook" where
  "ws_step maxA s Connect = connect s"
| "ws_step maxA s Disconnect = disconnect s"
| "ws_step maxA s Unmount = unmount s"
| "ws_step maxA s (SockOpen i) = on_open i s"
| "ws_step maxA s (SockClose i) = on_close maxA i s"
| "ws_step maxA s (TimerFire t) = timer_fire t s"
| "ws_step maxA s (SendMessage m) = sendMessage m s"
| "ws_step maxA s (SendAudio a) = sendAudio a s"

definition ws_run :: "nat \<Rightarrow> ws_event list \<Rightarrow> ws_hook \<Rightarrow> ws_hook" where
  "ws_run maxA evs s = foldl (ws_step maxA) s evs"

subsection \<open>The reconnection cycle\<close>

text \<open>
  A failed attempt is the loss of the current connection followed by the firing of the
  retry that the \<open>onclose\<close> handler scheduled, if it scheduled one.
\<close>

definition close_current :: "nat \<Rightarrow> ws_hook \<Rightarrow> ws_hook" where
  "close_current maxA s = (case wsRef s of None \<Rightarrow> s | Some i \<Rightarrow> on_close maxA i s)"

definition open_current :: "ws_hook \<Rightarrow> ws_hook" where
  "open_current s = (case wsRef s of None \<Rightarrow> s | Some i \<Rightarrow> on_open i s)"

definition fire_scheduled :: "ws_hook \<Rightarrow> ws_hook" where
  "fire_scheduled s = (case reconnectTimerRef s of None \<Rightarrow> s | Some t \<Rightarrow> timer_fire t s)"

definition failed_attempt :: "nat \<Rightarrow> ws_hook \<Rightarrow> ws_hook" where
  "failed_attempt maxA s = fire_scheduled (close_current maxA s)"

text \<open>
  A live channel: the current socket is connecting or open with its handler attached,
  the last close was not intentional, and no retry is pending.
\<close>

definition live :: "ws_hook \<Rightarrow> bool" where
  "live s =
     (timers s = [] \<and> \<not> intentionalCloseRef s \<and>
      (case wsRef s of None \<Rightarrow> False
       | Some i \<Rightarrow> i < length (sockets s) \<and> onclose (sockets s ! i) \<and>
           (readyState (sockets s ! i) = CONNECTING \<or> readyState (sockets s ! i) = OPEN)))"

definition connecting :: "ws_hook \<Rightarrow> bool" where
  "connecting s =
     (case wsRef s of None \<Rightarrow> False
      | Some i \<Rightarrow> i < length (sockets s) \<and> readyState (sockets s ! i) = CONNECTING)"

definition given_up :: "ws_hook \<Rightarrow> bool" where
  "given_up s =
     (timers s = [] \<and>
      (case wsRef s of None \<Rightarrow> False
       | Some i \<Rightarrow> i < length (sockets s) \<and> readyState (sockets s ! i) = CLOSED))"

section \<open>Audio playback accumulator (hook \<open>useAudioPlayer\<close>, debounce variant)\<close>

text \<open>
  Time is explicit: \<open>Elapse d\<close> lets \<open>d\<close> milliseconds pass without a fragment. The ref
  \<open>flushTimerRef\<close> is non-null exactly while its timeout is pending (the callback nulls
  it, and every other writer clears the timeout first), so it is modelled by the time
  left on that timeout. \<open>decoded\<close> lists the buffers handed to \<open>decodeAudioData\<close>.
\<close>

record player =
  isPlaying :: bool
  chunksRef :: "ArrayBuffer list"
  flushTimerRef :: "nat option"
  decoded :: "ArrayBuffer list"

definition player_init :: player where
  "player_init = \<lparr>isPlaying = False, chunksRef = [], flushTimerRef = None, decoded = []\<rparr>"

text \<open>\<open>combined.set(new Uint8Array(chunk), offset)\<close>, for a chunk that fits.\<close>

definition set_at :: "ArrayBuffer \<Rightarrow> ArrayBuffer \<Rightarrow> nat \<Rightarrow> ArrayBuffer" where
  "set_at combined chunk offset =
     take offset combined @ chunk @ drop (offset + length chunk) combined"

definition combine :: "ArrayBuffer list \<Rightarrow> ArrayBuffer" where
  "combine chunks =
     (let totalLength = foldl (\<lambda>sum c. sum + length c) 0 chunks;
          combined = replicate totalLength 0
      in fst (foldl (\<lambda>(combined, offset) chunk.
                       (set_at combined chunk offset, offset + length chunk))
                (combined, 0) chunks))"

text \<open>
  \<open>playAccumulated\<close>: the buffer is taken and reset at once, and a non-empty buffer is
  combined and handed to the decoder (after the audio context has resumed, if it was
  suspended). Decoding and playing end, with or without a failure, in the \<open>finally\<close>
  block, which is \<open>playback_settled\<close>.
\<close>

definition playAccumulated :: "player \<Rightarrow> player" where
  "playAccumulated s =
     (let chunks = chunksRef s; s1 = s\<lparr>chunksRef := []\<rparr>
      in if chunks = [] then s1
         else s1\<lparr>isPlaying := True, decoded := decoded s1 @ [combine chunks]\<rparr>)"

definition playback_settled :: "player \<Rightarrow> player" where
  "playback_settled s = s\<lparr>isPlaying := False\<rparr>"

definition playAudioChunk :: "ArrayBuffer \<Rightarrow> player \<Rightarrow> player" where
  "playAudioChunk audioData s = s\<lparr>chunksRef := chunksRef s @ [audioData], flushTimerRef := Some 500\<rparr>"

definition stopPlayback :: "player \<Rightarrow> player" where
  "stopPlayback s = s\<lparr>chunksRef := [], flushTimerRef := None, isPlaying := False\<rparr>"

definition elapse :: "nat \<Rightarrow> player \<Rightarrow> player" where
  "elapse d s =
     (case flushTimerRef s of None \<Rightarrow> s
      | Some left \<Rightarrow>
          if d < left then s\<lparr>flushTimerRef := Some (left - d)\<rparr>
          else playAccumulated (s\<lparr>flushTimerRef := None\<rparr>))"

datatype player_event = Fragment ArrayBuffer | Elapse nat | StopPlayback | Settled

fun player_step :: "player \<Rightarrow> player_event \<Rightarrow> player" where
  "player_step s (Fragment a) = playAudioChunk a s"
| "player_step s (Elapse d) = elapse d s"
| "player_step s StopPlayback = stopPlayback s"
| "player_step s Settled = playback_settled s"

definition player_run :: "player_event list \<Rightarrow> player \<Rightarrow> player" where
  "player_run evs s = foldl player_step s evs"

section \<open>Audio capture pipeline (hook \<open>useAudioRecorder\<close>)\<close>

text \<open>
  A sample is a finite number or NaN (\<open>None\<close>), the value that arithmetic on a read
  outside an array gives. Finite samples are real numbers; the infinities and the rounding
  of IEEE arithmetic are outside the model.
\<close>

type_synonym float = "real option"

definition fmul :: "float \<Rightarrow> float \<Rightarrow> float" where
  "fmul a b = (case (a, b) of (Some x, Some y) \<Rightarrow> Some (x * y) | _ \<Rightarrow> None)"

definition fadd :: "float \<Rightarrow> float \<Rightarrow> float" where
  "fadd a b = (case (a, b) of (Some x, Some y) \<Rightarrow> Some (x + y) | _ \<Rightarrow> None)"

text \<open>\<open>buffer[k]\<close> used as a number\<close>

definition sample_at :: "float list \<Rightarrow> int \<Rightarrow> float" where
  "sample_at buffer k = (if 0 \<le> k \<and> k < int (length buffer) then buffer ! nat k else None)"

text \<open>\<open>Math.round\<close>: the nearest integer, halves upwards\<close>

definition Math_round :: "real \<Rightarrow> int" where
  "Math_round x = \<lfloor>x + 1 / 2\<rfloor>"

definition interpolate :: "float list \<Rightarrow> real \<Rightarrow> nat \<Rightarrow> float" where
  "interpolate buffer ratio i =
     (let srcIndex = real i * ratio;
          low = \<lfloor>srcIndex\<rfloor>;
          high = min (low + 1) (int (length buffer) - 1);
          frac = srcIndex - of_int low
      in fadd (fmul (sample_at buffer low) (Some (1 - frac)))
              (fmul (sample_at buffer high) (Some frac)))"

definition downsampleFloat32 :: "float list \<Rightarrow> real \<Rightarrow> real \<Rightarrow> float list" where
  "downsampleFloat32 buffer srcRate dstRate =
     (if srcRate = dstRate then buffer
      else
        let ratio = srcRate / dstRate;
            newLength = nat (Math_round (real (length buffer) / ratio))
        in map (interpolate buffer ratio) [0..<newLength])"

text \<open>
  Storing a number in an \<open>Int16Array\<close>: NaN becomes 0, anything else is truncated towards
  zero and wraps modulo \<open>2^16\<close>. \<open>float32ToInt16\<close> returns the array's buffer; the model
  returns the array.
\<close>

definition Math_trunc :: "real \<Rightarrow> int" where
  "Math_trunc x = (if x < 0 then \<lceil>x\<rceil> else \<lfloor>x\<rfloor>)"

definition ToInt16 :: "float \<Rightarrow> 16 word" where
  "ToInt16 v = (case v of None \<Rightarrow> 0 | Some x \<Rightarrow> word_of_int (Math_trunc x))"

definition Math_min1 :: "float \<Rightarrow> float" where
  "Math_min1 v = (case v of None \<Rightarrow> None | Some x \<Rightarrow> Some (min 1 x))"

definition Math_max_neg1 :: "float \<Rightarrow> float" where
  "Math_max_neg1 v = (case v of None \<Rightarrow> None | Some x \<Rightarrow> Some (max (- 1) x))"

definition clamp :: "float \<Rightarrow> float" where
  "clamp v = Math_max_neg1 (Math_min1 v)"

definition negative :: "float \<Rightarrow> bool" where
  "negative v = (case v of None \<Rightarrow> False | Some x \<Rightarrow> x < 0)"

definition scaled :: "float \<Rightarrow> float" where
  "scaled v = (let s = clamp v in if negative s then fmul s (Some 32768) else fmul s (Some 32767))"

definition float32ToInt16 :: "float list \<Rightarrow> 16 word list" where
  "float32ToInt16 float32 = map (\<lambda>v. ToInt16 (scaled v)) float32"

text \<open>
  The recorder's refs. \<open>stopRecording\<close> makes its teardown calls one after the other with
  no exception handler; \<open>throws\<close> says which call raises. A call that raises ends the
  function there, with the state as it is at that point. \<open>released\<close> lists the calls
  that went through.
\<close>

datatype teardown = DisconnectProcessor | DisconnectSource | CloseContext | StopTrack nat

record recorder =
  isRecording :: bool
  streamRef :: "nat list option" \<comment> \<open>the tracks of the microphone stream\<close>
  audioCtxRef :: bool
  processorRef :: bool
  sourceRef :: bool
  released :: "teardown list"

fun stop_tracks :: "(teardown \<Rightarrow> bool) \<Rightarrow> nat list \<Rightarrow> recorder \<Rightarrow> recorder \<times> teardown option" where
  "stop_tracks throws [] r = (r, None)"
| "stop_tracks throws (t # ts) r =
     (if throws (StopTrack t) then (r, Some (StopTrack t))
      else stop_tracks throws ts (r\<lparr>released := released r @ [StopTrack t]\<rparr>))"

definition stopRecording :: "(teardown \<Rightarrow> bool) \<Rightarrow> recorder \<Rightarrow> recorder \<times> teardown option" where
  "stopRecording throws r =
     (if processorRef r \<and> throws DisconnectProcessor then (r, Some DisconnectProcessor)
      else
        let r1 = (if processorRef r
                  then r\<lparr>released := released r @ [DisconnectProcessor], processorRef := False\<rparr>
                  else r)
        in if sourceRef r1 \<and> throws DisconnectSource then (r1, Some DisconnectSource)
        else
          let r2 = (if sourceRef r1
                    then r1\<lparr>released := released r1 @ [DisconnectSource], sourceRef := False\<rparr>
                    else r1)
          in if audioCtxRef r2 \<and> throws CloseContext then (r2, Some CloseContext)
          else
            let r3 = (if audioCtxRef r2
                      then r2\<lparr>released := released r2 @ [CloseContext], audioCtxRef := False\<rparr>
                      else r2)
            in case streamRef r3 of
                 None \<Rightarrow> (r3\<lparr>isRecording := False\<rparr>, None)
               | Some tracks \<Rightarrow>
                   (case stop_tracks throws tracks r3 of
                      (r4, Some e) \<Rightarrow> (r4, Some e)
                    | (r4, None) \<Rightarrow> (r4\<lparr>streamRef := None, isRecording := False\<rparr>, None)))"


section \<open>Session state machine (page component \<open>Home\<close>)\<close>

record TranscriptEntry =
  entry_text :: string
  speaker :: string
  entry_timestamp :: string

record SafetyAlert =
  level :: string
  alert_message :: string
  recommendation :: "string option"
  alert_timestamp :: string

record ClinicalIntent =
  medications :: "(string \<times> string option) list" \<comment> \<open>name and optional dosage\<close>
  procedures :: "string list"
  diagnoses :: "string list"

record BillingInfo =
  invoice_id :: string
  amount :: int
  status :: string

record EndConsultResponse =
  session_id :: string
  soap_note :: string
  billing :: BillingInfo
  duration_minutes :: nat

text \<open>
  The inbound messages, by their \<open>type\<close> field. \<open>Other\<close> is a message of any type the
  \<open>switch\<close> has no case for.
\<close>

datatype WebSocketMessage =
  StateChange (old_state: string) (new_state: string) (timestamp: string)
| Transcript string string \<comment> \<open>\<open>transcript\<close> or \<open>transcript_added\<close>: text, timestamp\<close>
| SafetyAlertMsg string "string option" "string option" string
    \<comment> \<open>safety level, warning, recommendation, timestamp\<close>
| ClinicalIntentMsg ClinicalIntent string
| ConsultEnded string string \<comment> \<open>SOAP note, timestamp\<close>
| InterruptionStart "string option" string
| InterruptionEnd string
| Other string

text \<open>
  The component's state. \<open>interval\<close> is the \<open>setInterval\<close> of the timer effect: the time
  left until its next tick, if the effect has one running. The entry and alert ids
  (made from \<open>Date.now()\<close>) and the patient selection are left out.
\<close>

record page =
  sessionId :: "string option"
  sessionState :: string
  isPaused :: bool
  elapsedSeconds :: nat
  transcriptEntries :: "TranscriptEntry list"
  safetyAlerts :: "SafetyAlert list"
  currentSafetyLevel :: string
  isInterrupting :: bool
  interruptionMessage :: string
  clinicalIntent :: "ClinicalIntent option"
  sessionSummary :: "EndConsultResponse option"
  interval :: "nat option"
  hook :: ws_hook
  recorderRefs :: recorder

text \<open>The truth value JavaScript gives to an optional string.\<close>

definition truthy :: "string option \<Rightarrow> bool" where
  "truthy v = (case v of None \<Rightarrow> False | Some x \<Rightarrow> x \<noteq> [])"

definition or_else :: "string option \<Rightarrow> string \<Rightarrow> string" where
  "or_else v d = (case v of None \<Rightarrow> d | Some x \<Rightarrow> if x = [] then d else x)"

fun join :: "string list \<Rightarrow> string" where
  "join [] = []"
| "join [x] = x"
| "join (x # y # ys) = x @ '', '' @ join (y # ys)"

definition medNames :: "ClinicalIntent \<Rightarrow> string" where
  "medNames intent =
     join (map (\<lambda>(name, dosage). name @ (if truthy dosage then '' '' @ the dosage else []))
            (medications intent))"

text \<open>
  \<open>handleWebSocketMessage\<close>. The callback reads \<open>sessionId\<close> and \<open>elapsedSeconds\<close> from
  the render that created it, which is the render whose \<open>connect\<close> opened the socket;
  they are the parameters \<open>sid\<close> and \<open>elapsed\<close>.
\<close>

fun handleWebSocketMessage :: "string option \<Rightarrow> nat \<Rightarrow> WebSocketMessage \<Rightarrow> page \<Rightarrow> page" where
  "handleWebSocketMessage sid elapsed (StateChange old new ts) s =
     (let s1 = s\<lparr>sessionState := new\<rparr>;
          s2 = (if new = ''PAUSED'' then s1\<lparr>isPaused := True\<rparr> else s1);
          s3 = (if new = ''LISTENING'' then s2\<lparr>isPaused := False\<rparr> else s2)
      in if new = ''INTERRUPTING'' then s3\<lparr>isInterrupting := True\<rparr> else s3)"
| "handleWebSocketMessage sid elapsed (Transcript txt ts) s =
     s\<lparr>transcriptEntries := transcriptEntries s @
          [\<lparr>entry_text = txt, speaker = ''doctor'', entry_timestamp = ts\<rparr>]\<rparr>"
| "handleWebSocketMessage sid elapsed (SafetyAlertMsg lvl warning recomm ts) s =
     s\<lparr>safetyAlerts :=
          \<lparr>level = lvl, alert_message = or_else warning ''Safety check completed'',
           recommendation = (if truthy recomm then recomm else None),
           alert_timestamp = ts\<rparr> # safetyAlerts s,
        currentSafetyLevel := lvl\<rparr>"
| "handleWebSocketMessage sid elapsed (ClinicalIntentMsg intent ts) s =
     (let s1 = s\<lparr>clinicalIntent := Some intent\<rparr>
      in if medications intent \<noteq> []
         then s1\<lparr>transcriptEntries := transcriptEntries s1 @
                   [\<lparr>entry_text = ''[Detected] Medications: '' @ medNames intent,
                     speaker = ''system'', entry_timestamp = ts\<rparr>]\<rparr>
         else s1)"
| "handleWebSocketMessage sid elapsed (ConsultEnded note ts) s =
     s\<lparr>sessionSummary :=
          Some \<lparr>session_id = or_else sid [], soap_note = note,
                billing = \<lparr>invoice_id = ''pending'', amount = 0, status = ''pending''\<rparr>,
                duration_minutes = elapsed div 60\<rparr>,
        sessionState := ''COMPLETED''\<rparr>"
| "handleWebSocketMessage sid elapsed (InterruptionStart txt ts) s =
     s\<lparr>isInterrupting := True,
        interruptionMessage := or_else txt ''Clinical alert detected!'',
        transcriptEntries := transcriptEntries s @
          [\<lparr>entry_text = ''[ALERT] '' @ (case txt of None \<Rightarrow> ''undefined'' | Some x \<Rightarrow> x),
            speaker = ''system'', entry_timestamp = ts\<rparr>]\<rparr>"
| "handleWebSocketMessage sid elapsed (InterruptionEnd ts) s = s\<lparr>isInterrupting := False\<rparr>"
| "handleWebSocketMessage sid elapsed (Other ty) s = s"

text \<open>
  \<open>handleEndConsult\<close>, with the outcome \<open>response\<close> of the REST call (\<open>Inl\<close> a failure)
  and the teardown calls that raise. Any exception is caught and logged.
\<close>

definition handleEndConsult ::
  "(teardown \<Rightarrow> bool) \<Rightarrow> string + EndConsultResponse \<Rightarrow> page \<Rightarrow> page" where
  "handleEndConsult throws response s =
     (if \<not> truthy (sessionId s) then s
      else
        case stopRecording throws (recorderRefs s) of
          (r, Some e) \<Rightarrow> s\<lparr>recorderRefs := r\<rparr>
        | (r, None) \<Rightarrow>
            (case response of
               Inl err \<Rightarrow> s\<lparr>recorderRefs := r\<rparr>
             | Inr resp \<Rightarrow>
                 s\<lparr>recorderRefs := r, sessionSummary := Some resp, hook := disconnect (hook s),
                    sessionId := None, sessionState := ''IDLE''\<rparr>))"

text \<open>
  The timer effect depends on \<open>sessionId\<close>, \<open>sessionState\<close> and \<open>isPaused\<close>. When a
  render changes one of them, the cleanup clears the interval and the effect sets a new
  one if the session exists, is listening and is not paused.
\<close>

definition counting :: "page \<Rightarrow> bool" where
  "counting s = (truthy (sessionId s) \<and> sessionState s = ''LISTENING'' \<and> \<not> isPaused s)"

definition timer_effect :: "page \<Rightarrow> page \<Rightarrow> page" where
  "timer_effect prev s =
     (if sessionId s = sessionId prev \<and> sessionState s = sessionState prev \<and>
         isPaused s = isPaused prev
      then s
      else s\<lparr>interval := (if counting s then Some 1000 else None)\<rparr>)"

text \<open>\<open>d\<close> milliseconds pass: the interval, if there is one, ticks every 1000 ms.\<close>

definition time_passes :: "nat \<Rightarrow> page \<Rightarrow> page" where
  "time_passes d s =
     (case interval s of None \<Rightarrow> s
      | Some left \<Rightarrow>
          if d < left then s\<lparr>interval := Some (left - d)\<rparr>
          else s\<lparr>elapsedSeconds := elapsedSeconds s + 1 + (d - left) div 1000,
                 interval := Some (1000 - (d - left) mod 1000)\<rparr>)"

datatype page_event =
  Message WebSocketMessage
| Elapsed nat
| EndConsult "teardown \<Rightarrow> bool" "string + EndConsultResponse"

fun page_step :: "string option \<Rightarrow> nat \<Rightarrow> page \<Rightarrow> page_event \<Rightarrow> page" where
  "page_step sid elapsed s (Message m) = timer_effect s (handleWebSocketMessage sid elapsed m s)"
| "page_step sid elapsed s (Elapsed d) = time_passes d s"
| "page_step sid elapsed s (EndConsult throws response) =
     timer_effect s (handleEndConsult throws response s)"

definition page_run :: "string option \<Rightarrow> nat \<Rightarrow> page_event list \<Rightarrow> page \<Rightarrow> page" where
  "page_run sid elapsed evs s = foldl (page_step sid elapsed) s evs"

definition effect_ok :: "page \<Rightarrow> bool" where
  "effect_ok s = (counting s \<longleftrightarrow> interval s \<noteq> None)"

text \<open>The state of a session that was just started and is connected.\<close>

definition recorder_init :: recorder where
  "recorder_init = \<lparr>isRecording = False, streamRef = None, audioCtxRef = False,
     processorRef = False, sourceRef = False, released = []\<rparr>"

definition page_listening :: page where
  "page_listening = \<lparr>sessionId = Some ''S1'', sessionState = ''LISTENING'', isPaused = False,
     elapsedSeconds = 0, transcriptEntries = [], safetyAlerts = [], currentSafetyLevel = ''SAFE'',
     isInterrupting = False, interruptionMessage = [], clinicalIntent = None,
     sessionSummary = None, interval = Some 1000, hook = open_current (connect hook_init),
     recorderRefs = recorder_init\<rparr>"

text \<open>
  The state machine as the specification words it: a recognized \<open>new_state\<close> replaces the
  mirrored state, an unrecognized one is ignored.
\<close>

definition recognized :: "string \<Rightarrow> bool" where
  "recognized st = (st \<in> set [''IDLE'', ''LISTENING'', ''PAUSED'', ''PROCESSING'',
     ''INTERRUPTING'', ''COMPLETED''])"

definition mirror_spec :: "string \<Rightarrow> WebSocketMessage list \<Rightarrow> string" where
  "mirror_spec st evs =
     foldl (\<lambda>cur m. case m of StateChange old new ts \<Rightarrow> if recognized new then new else cur
                       | _ \<Rightarrow> cur) st evs"


section \<open>Concrete states and inputs\<close>

definition recording :: recorder where
  "recording = \<lparr>isRecording = True, streamRef = Some [0], audioCtxRef = True,
     processorRef = True, sourceRef = True, released = []\<rparr>"

definition processor_fails :: "teardown \<Rightarrow> bool" where
  "processor_fails c = (c = DisconnectProcessor)"

definition never :: "teardown \<Rightarrow> bool" where
  "never c = False"

definition is_state_change :: "WebSocketMessage \<Rightarrow> bool" where
  "is_state_change m = (case m of StateChange old new ts \<Rightarrow> True | _ \<Rightarrow> False)"


definition response_ok :: EndConsultResponse where
  "response_ok = \<lparr>session_id = ''S1'', soap_note = ''note'',
     billing = \<lparr>invoice_id = ''INV-1'', amount = 150, status = ''submitted''\<rparr>,
     duration_minutes = 12\<rparr>"

definition page_paused :: page where
  "page_paused = page_listening\<lparr>sessionState := ''PAUSED'', isPaused := True, interval := None,
     elapsedSeconds := 7\<rparr>"

definition placeholder :: "string option \<Rightarrow> nat \<Rightarrow> string \<Rightarrow> EndConsultResponse" where
  "placeholder sid el soap = \<lparr>session_id = or_else sid [], soap_note = soap,
     billing = \<lparr>invoice_id = ''pending'', amount = 0, status = ''pending''\<rparr>,
     duration_minutes = el div 60\<rparr>"


section \<open>Theorems\<close>

subsection \<open>Reconnection\<close>

lemma close_current_schedules:
  assumes "live s" "reconnectAttemptsRef s < maxA"
  shows "timers (close_current maxA s) =
           [(timerCount s + 1, RECONNECT_BASE_DELAY * 2 ^ reconnectAttemptsRef s)]"
    and "reconnectTimerRef (close_current maxA s) = Some (timerCount s + 1)"
  using assms
  by (auto simp: live_def close_current_def on_close_def upd_socket_def setTimeout_def Let_def
      split: option.splits)

lemma close_current_gives_up:
  assumes "live s" "\<not> reconnectAttemptsRef s < maxA"
  shows "given_up (close_current maxA s)"
  using assms
  by (auto simp: live_def given_up_def close_current_def on_close_def upd_socket_def Let_def
      split: option.splits)

lemma failed_attempt_live:
  assumes "live s" "reconnectAttemptsRef s < maxA"
  shows "live (failed_attempt maxA s)"
    and "reconnectAttemptsRef (failed_attempt maxA s) = reconnectAttemptsRef s + 1"
  using assms
  by (auto simp: live_def failed_attempt_def fire_scheduled_def close_current_def on_close_def
      timer_fire_def connect_def ref_open_def ws_close_def clearTimeout_def
      upd_socket_def setTimeout_def Let_def nth_append
      split: option.splits)

lemma given_up_stays:
  assumes "given_up s"
  shows "given_up (failed_attempt maxA s)" and "timers (close_current maxA s) = []"
  using assms
  by (auto simp: given_up_def failed_attempt_def fire_scheduled_def close_current_def on_close_def
      timer_fire_def Let_def split: option.splits)


lemma fire_scheduled_given_up: "given_up s \<Longrightarrow> fire_scheduled s = s"
  by (simp add: given_up_def fire_scheduled_def timer_fire_def split: option.splits)

lemma failed_attempts_live:
  assumes "live s" "reconnectAttemptsRef s = 0" "k \<le> maxA"
  shows "live ((failed_attempt maxA ^^ k) s) \<and>
         reconnectAttemptsRef ((failed_attempt maxA ^^ k) s) = k"
  using assms(3)
proof (induction k)
  case 0
  then show ?case using assms(1,2) by simp
next
  case (Suc k)
  then have "live ((failed_attempt maxA ^^ k) s)"
    and "reconnectAttemptsRef ((failed_attempt maxA ^^ k) s) = k" and "k < maxA"
    by simp_all
  then show ?case
    using failed_attempt_live [of "(failed_attempt maxA ^^ k) s" maxA] by simp
qed

lemma failed_attempts_given_up:
  assumes "live s" "reconnectAttemptsRef s = 0" "maxA < k"
  shows "given_up ((failed_attempt maxA ^^ k) s)"
  using assms(3)
proof (induction k)
  case 0
  then show ?case by simp
next
  case (Suc k)
  show ?case
  proof (cases "maxA < k")
    case True
    with Suc.IH show ?thesis by (simp add: given_up_stays(1))
  next
    case False
    with Suc.prems have "k = maxA" by simp
    then have "live ((failed_attempt maxA ^^ k) s)"
      and "\<not> reconnectAttemptsRef ((failed_attempt maxA ^^ k) s) < maxA"
      using failed_attempts_live [OF assms(1,2), of k maxA] by simp_all
    then have "given_up (close_current maxA ((failed_attempt maxA ^^ k) s))"
      by (rule close_current_gives_up)
    then have "given_up (failed_attempt maxA ((failed_attempt maxA ^^ k) s))"
      unfolding failed_attempt_def by (simp only: fire_scheduled_given_up)
    then show ?thesis by simp
  qed
qed

lemma failed_attempt_connecting:
  assumes "live s" "reconnectAttemptsRef s < maxA"
  shows "connecting (failed_attempt maxA s)"
  using assms
  by (auto simp: live_def connecting_def failed_attempt_def fire_scheduled_def close_current_def
      on_close_def timer_fire_def connect_def ref_open_def ws_close_def clearTimeout_def
      upd_socket_def setTimeout_def Let_def nth_append
      split: option.splits)

lemma open_current_live:
  assumes "live s" "connecting s"
  shows "live (open_current s)" and "reconnectAttemptsRef (open_current s) = 0"
    and "ref_open (open_current s)"
  using assms
  by (auto simp: live_def connecting_def open_current_def on_open_def upd_socket_def ref_open_def
      split: option.splits)

text \<open>
  C2. Take a live channel whose attempt counter is 0 and let the connection fail \<open>N\<close>
  times in a row, each retry firing and failing again, with no open in between. If
  \<open>N\<close> is at most the configured maximum, the \<open>N\<close>-th close schedules exactly one retry,
  after \<open>RECONNECT_BASE_DELAY * 2 ^ (N - 1)\<close> ms; once the counter has reached the
  maximum, a close schedules nothing. When the \<open>N\<close>-th retry opens instead, the counter
  is back at 0 and the channel is live again.
\<close>

theorem reconnect_backoff:
  assumes "live s" and "reconnectAttemptsRef s = 0" and "0 < N"
  shows "(N \<le> maxA \<longrightarrow>
            map snd (timers (close_current maxA ((failed_attempt maxA ^^ (N - 1)) s)))
              = [RECONNECT_BASE_DELAY * 2 ^ (N - 1)]) \<and>
         (maxA < N \<longrightarrow> timers (close_current maxA ((failed_attempt maxA ^^ (N - 1)) s)) = []) \<and>
         (N \<le> maxA \<longrightarrow>
            reconnectAttemptsRef (open_current ((failed_attempt maxA ^^ N) s)) = 0 \<and>
            live (open_current ((failed_attempt maxA ^^ N) s)))"
proof (intro conjI impI)
  assume le: "N \<le> maxA"
  with assms(3) have "N - 1 \<le> maxA" by simp
  from failed_attempts_live [OF assms(1,2) this] assms(3) le
  have "live ((failed_attempt maxA ^^ (N - 1)) s)"
    and "reconnectAttemptsRef ((failed_attempt maxA ^^ (N - 1)) s) = N - 1"
    and "N - 1 < maxA" by simp_all
  then show "map snd (timers (close_current maxA ((failed_attempt maxA ^^ (N - 1)) s)))
              = [RECONNECT_BASE_DELAY * 2 ^ (N - 1)]"
    using close_current_schedules(1) [of "(failed_attempt maxA ^^ (N - 1)) s" maxA] by simp
next
  assume gt: "maxA < N"
  show "timers (close_current maxA ((failed_attempt maxA ^^ (N - 1)) s)) = []"
  proof (cases "maxA < N - 1")
    case True
    from failed_attempts_given_up [OF assms(1,2) this] show ?thesis
      by (rule given_up_stays(2))
  next
    case False
    with gt have "N - 1 \<le> maxA" and "N - 1 = maxA" by simp_all
    with failed_attempts_live [OF assms(1,2), of "N - 1" maxA]
    have "live ((failed_attempt maxA ^^ (N - 1)) s)"
      and "\<not> reconnectAttemptsRef ((failed_attempt maxA ^^ (N - 1)) s) < maxA" by simp_all
    then have "given_up (close_current maxA ((failed_attempt maxA ^^ (N - 1)) s))"
      by (rule close_current_gives_up)
    then show ?thesis by (simp add: given_up_def)
  qed
next
  assume le: "N \<le> maxA"
  from failed_attempts_live [OF assms(1,2) le]
  have l: "live ((failed_attempt maxA ^^ N) s)" by simp
  from assms(3) obtain k where N: "N = Suc k" by (cases N) auto
  with le have "k \<le> maxA" by simp
  from failed_attempts_live [OF assms(1,2) this] N le
  have "connecting (failed_attempt maxA ((failed_attempt maxA ^^ k) s))"
    by (intro failed_attempt_connecting) simp_all
  with N have c: "connecting ((failed_attempt maxA ^^ N) s)" by simp
  from l c show "reconnectAttemptsRef (open_current ((failed_attempt maxA ^^ N) s)) = 0"
    by (rule open_current_live(2))
  from l c show "live (open_current ((failed_attempt maxA ^^ N) s))"
    by (rule open_current_live(1))
qed

theorem reconnect_backoff_witness:
  "live (connect hook_init) \<and> reconnectAttemptsRef (connect hook_init) = 0 \<and>
   map snd (timers (close_current 5 ((failed_attempt 5 ^^ (3 - 1)) (connect hook_init)))) = [4000] \<and>
   timers (close_current 5 ((failed_attempt 5 ^^ (6 - 1)) (connect hook_init))) = [] \<and>
   reconnectAttemptsRef (open_current ((failed_attempt 5 ^^ 3) (connect hook_init))) = 0"
proof -
  have l: "live (connect hook_init)" and a: "reconnectAttemptsRef (connect hook_init) = 0"
    by (simp_all add: live_def connect_def hook_init_def ref_open_def Let_def)
  from reconnect_backoff [OF l a, of 3 5] reconnect_backoff [OF l a, of 6 5] l a
  show ?thesis by (simp add: RECONNECT_BASE_DELAY_def)
qed

text \<open>
  What \<open>disconnect\<close> does in any state: it sets the intentional-close flag, cancels the
  timeout that \<open>reconnectTimerRef\<close> holds, resets the counter and drops the socket, and
  while the flag stays set the close of any socket schedules nothing.
\<close>

lemma disconnect_effect:
  "intentionalCloseRef (disconnect s) \<and> reconnectTimerRef (disconnect s) = None \<and>
   reconnectAttemptsRef (disconnect s) = 0 \<and> wsRef (disconnect s) = None \<and>
   (\<forall>t. reconnectTimerRef s = Some t \<longrightarrow> t \<notin> fst ` set (timers (disconnect s))) \<and>
   timers (on_close maxA i (disconnect s)) = timers (disconnect s)"
  by (auto simp: disconnect_def on_close_def ws_close_def upd_socket_def clearTimeout_def Let_def
      split: option.splits)

text \<open>
  With at most one retry pending, which is the case after the loss of a live connection,
  nothing is pending after \<open>disconnect\<close>.
\<close>

lemma disconnect_after_loss:
  "live s \<Longrightarrow> timers (disconnect s) = [] \<and> timers (disconnect (close_current maxA s)) = []"
  by (auto simp: live_def disconnect_def close_current_def on_close_def ws_close_def
      upd_socket_def clearTimeout_def setTimeout_def Let_def split: option.splits)

text \<open>
  C3. A run in which a retry fires after an intentional close. The first connection
  fails and schedules timeout 1; \<open>connect\<close> is called again before it fires and does not
  cancel it; the second connection fails and schedules timeout 2, which replaces
  timeout 1 in \<open>reconnectTimerRef\<close>. \<open>disconnect\<close> then cancels timeout 2 only. Timeout 1
  is still pending, and when it fires it clears the intentional-close flag and opens a
  third socket. The unmount cleanup leaves timeout 1 pending in the same way.
\<close>

theorem retry_fires_after_disconnect:
  "intentionalCloseRef (ws_run 5 [Connect, SockClose 0, Connect, SockClose 1, Disconnect] hook_init) \<and>
   timers (ws_run 5 [Connect, SockClose 0, Connect, SockClose 1, Disconnect] hook_init) = [(1, 1000)] \<and>
   timers (ws_run 5 [Connect, SockClose 0, Connect, SockClose 1, Unmount] hook_init) = [(1, 1000)] \<and>
   wsRef (ws_run 5 [Connect, SockClose 0, Connect, SockClose 1, Disconnect, TimerFire 1] hook_init) = Some 2 \<and>
   map readyState (sockets (ws_run 5 [Connect, SockClose 0, Connect, SockClose 1, Disconnect, TimerFire 1] hook_init))
     = [CLOSED, CLOSED, CONNECTING] \<and>
   \<not> intentionalCloseRef (ws_run 5 [Connect, SockClose 0, Connect, SockClose 1, Disconnect, TimerFire 1] hook_init)"
  by (simp add: ws_run_def hook_init_def connect_def disconnect_def on_close_def timer_fire_def
      unmount_def ref_open_def ws_close_def upd_socket_def clearTimeout_def setTimeout_def
      RECONNECT_BASE_DELAY_def Let_def)

subsection \<open>Sending\<close>

text \<open>
  C10. When the socket is absent or not in the OPEN state, \<open>sendMessage\<close>, \<open>sendAudio\<close>
  and every command built on them return the state they were given: nothing is sent,
  nothing is queued, nothing else changes, and there is no error result to return.
  (The variant of the hook without reconnection has the same two functions.)
\<close>

theorem send_without_open_socket_is_noop:
  "\<not> ref_open s \<Longrightarrow>
     sendMessage m s = s \<and> sendAudio a s = s \<and> sendTranscript txt sp s = s \<and>
     endSession s = s \<and> pauseSession s = s \<and> resumeSession s = s \<and>
     triggerSafetyCheck s = s"
  by (simp add: sendMessage_def sendAudio_def sendTranscript_def endSession_def
      pauseSession_def resumeSession_def triggerSafetyCheck_def)

theorem send_without_open_socket_is_noop_witness:
  "\<not> ref_open (connect hook_init) \<and>
   sendMessage [(''type'', ''end'')] (connect hook_init) = connect hook_init \<and>
   sendAudio [1, 2, 3] (connect hook_init) = connect hook_init \<and>
   sent (pauseSession (connect hook_init)) = []"
proof -
  have closed: "\<not> ref_open (connect hook_init)"
    by (simp add: ref_open_def connect_def hook_init_def Let_def)
  have "sent (connect hook_init) = []"
    by (simp add: ref_open_def connect_def hook_init_def Let_def)
  with closed
    send_without_open_socket_is_noop [OF closed, of "[(''type'', ''end'')]" "[1, 2, 3]"]
  show ?thesis by simp
qed

subsection \<open>Playback accumulator\<close>

lemma total_length: "foldl (\<lambda>sum c. sum + length c) n chunks = n + length (concat chunks)"
  by (induction chunks arbitrary: n) auto

lemma set_at_fill:
  "set_at (pre @ replicate (length c + n) 0) c (length pre) = (pre @ c) @ replicate n 0"
  by (simp add: set_at_def replicate_add)

lemma combine_loop:
  "foldl (\<lambda>(combined, offset) chunk. (set_at combined chunk offset, offset + length chunk))
      (pre @ replicate (length (concat chunks)) 0, length pre) chunks
   = (pre @ concat chunks, length pre + length (concat chunks))"
proof (induction chunks arbitrary: pre)
  case Nil
  then show ?case by simp
next
  case (Cons c cs)
  have "set_at (pre @ replicate (length (concat (c # cs))) 0) c (length pre)
          = (pre @ c) @ replicate (length (concat cs)) 0"
    using set_at_fill [of pre c "length (concat cs)"] by simp
  with Cons.IH [of "pre @ c"] show ?case by simp
qed

lemma combine_concat: "combine chunks = concat chunks"
  using combine_loop [of "[]" chunks] by (simp add: combine_def total_length)

lemma quiet_lt:
  "sum_list ds < left \<Longrightarrow>
     foldl player_step (s\<lparr>flushTimerRef := Some left\<rparr>) (map Elapse ds)
       = s\<lparr>flushTimerRef := Some (left - sum_list ds)\<rparr>"
proof (induction ds arbitrary: left)
  case Nil
  then show ?case by simp
next
  case (Cons d ds)
  then have "d < left" and "sum_list ds < left - d" by simp_all
  with Cons.IH [of "left - d"] show ?case by (simp add: elapse_def)
qed

lemma idle_elapse:
  "flushTimerRef s = None \<Longrightarrow> foldl player_step s (map Elapse ds) = s"
  by (induction ds) (simp_all add: elapse_def)

lemma quiet_ge:
  "0 < left \<Longrightarrow> left \<le> sum_list ds \<Longrightarrow>
     foldl player_step (s\<lparr>flushTimerRef := Some left\<rparr>) (map Elapse ds)
       = playAccumulated (s\<lparr>flushTimerRef := None\<rparr>)"
proof (induction ds arbitrary: left)
  case Nil
  then show ?case by simp
next
  case (Cons d ds)
  show ?case
  proof (cases "d < left")
    case True
    with Cons.prems have "left - d \<le> sum_list ds" and "0 < left - d" by simp_all
    with Cons.IH [of "left - d"] True show ?thesis by (simp add: elapse_def)
  next
    case False
    have "flushTimerRef (playAccumulated (s\<lparr>flushTimerRef := None\<rparr>)) = None"
      by (simp add: playAccumulated_def Let_def)
    with False show ?thesis by (simp add: elapse_def idle_elapse)
  qed
qed


text \<open>
  C5. After a fragment arrives, the accumulated buffer is flushed exactly when 500 ms
  pass without another fragment: if the quiet time that follows the fragment adds up to
  500 ms or more, the fragments buffered so far are concatenated in arrival order and
  handed to the decoder, and the buffer is empty afterwards; if it adds up to less,
  nothing is flushed and the fragment stays buffered with the rest of the 500 ms still
  to run. Two fragments 100 ms apart give one flush of both, two fragments 600 ms apart
  give two flushes.
\<close>

theorem debounce_flush:
  "(500 \<le> sum_list ds \<longrightarrow>
      player_run (Fragment a # map Elapse ds) s
        = s\<lparr>chunksRef := [], flushTimerRef := None, isPlaying := True,
             decoded := decoded s @ [concat (chunksRef s @ [a])]\<rparr>) \<and>
   (sum_list ds < 500 \<longrightarrow>
      player_run (Fragment a # map Elapse ds) s
        = s\<lparr>chunksRef := chunksRef s @ [a], flushTimerRef := Some (500 - sum_list ds)\<rparr>) \<and>
   decoded (player_run [Fragment a, Elapse 100, Fragment b, Elapse 500] player_init) = [a @ b] \<and>
   decoded (player_run [Fragment a, Elapse 600, Fragment b, Elapse 500] player_init) = [a, b]"
proof (intro conjI impI)
  assume "500 \<le> sum_list ds"
  then show "player_run (Fragment a # map Elapse ds) s
        = s\<lparr>chunksRef := [], flushTimerRef := None, isPlaying := True,
             decoded := decoded s @ [concat (chunksRef s @ [a])]\<rparr>"
    using quiet_ge [of 500 ds "s\<lparr>chunksRef := chunksRef s @ [a]\<rparr>"]
    by (simp add: player_run_def playAudioChunk_def playAccumulated_def combine_concat Let_def)
next
  assume "sum_list ds < 500"
  then show "player_run (Fragment a # map Elapse ds) s
        = s\<lparr>chunksRef := chunksRef s @ [a], flushTimerRef := Some (500 - sum_list ds)\<rparr>"
    using quiet_lt [of ds 500 "s\<lparr>chunksRef := chunksRef s @ [a]\<rparr>"]
    by (simp add: player_run_def playAudioChunk_def)
next
  show "decoded (player_run [Fragment a, Elapse 100, Fragment b, Elapse 500] player_init) = [a @ b]"
    by (simp add: player_run_def playAudioChunk_def elapse_def playAccumulated_def
        player_init_def combine_concat Let_def)
next
  show "decoded (player_run [Fragment a, Elapse 600, Fragment b, Elapse 500] player_init) = [a, b]"
    by (simp add: player_run_def playAudioChunk_def elapse_def playAccumulated_def
        player_init_def combine_concat Let_def)
qed

theorem debounce_flush_witness:
  "decoded (player_run (Fragment [1, 2] # map Elapse [200, 300]) player_init) = [[1, 2]] \<and>
   chunksRef (player_run (Fragment [1, 2] # map Elapse [200, 300]) player_init) = [] \<and>
   decoded (player_run (Fragment [1, 2] # map Elapse [200, 299]) player_init) = [] \<and>
   chunksRef (player_run (Fragment [1, 2] # map Elapse [200, 299]) player_init) = [[1, 2]]"
  using debounce_flush [of "[200, 300]" "[1, 2]" player_init]
    debounce_flush [of "[200, 299]" "[1, 2]" player_init]
  by (simp add: player_init_def)

subsection \<open>Resampling\<close>

lemma round_third: "Math_round (real L / 3) = (int L + 1) div 3"
proof -
  have "real L / 3 + 1 / 2 = real_of_int (2 * int L + 3) / real_of_int 6" by simp
  then have "Math_round (real L / 3) = (2 * int L + 3) div 6"
    unfolding Math_round_def by (simp only: floor_divide_of_int_eq)
  then show ?thesis by linarith
qed

lemma new_length: "nat (Math_round (real L / 3)) = (L + 1) div 3"
  unfolding round_third by (simp add: nat_div_distrib nat_add_distrib)

lemma interpolate_3:
  assumes "i < (length buffer + 1) div 3"
  shows "3 * i < length buffer"
    and "interpolate buffer 3 i =
           fadd (fmul (buffer ! (3 * i)) (Some 1))
                (fmul (buffer ! min (3 * i + 1) (length buffer - 1)) (Some 0))"
proof -
  from assms show lt: "3 * i < length buffer" by linarith
  have fl: "\<lfloor>real i * 3\<rfloor> = int (3 * i)"
    by (metis floor_of_nat mult.commute of_nat_mult of_nat_numeral)
  have hi: "min (int (3 * i) + 1) (int (length buffer) - 1) = int (min (3 * i + 1) (length buffer - 1))"
    using lt by linarith
  have fr: "real i * 3 - real_of_int (int (3 * i)) = 0" by simp
  have m: "min (3 * i + 1) (length buffer - 1) < length buffer" using lt by linarith
  show "interpolate buffer 3 i =
           fadd (fmul (buffer ! (3 * i)) (Some 1))
                (fmul (buffer ! min (3 * i + 1) (length buffer - 1)) (Some 0))"
    unfolding interpolate_def Let_def fl hi fr sample_at_def
    using lt m by (simp only: nat_int of_nat_less_iff of_nat_0_le_iff if_True simp_thms diff_0_right)
qed

lemma finite_mix: "a \<noteq> None \<Longrightarrow> b \<noteq> None \<Longrightarrow> fadd (fmul a (Some 1)) (fmul b (Some 0)) = a"
  by (auto simp: fadd_def fmul_def)

text \<open>
  C7. Resampling from a rate to the same rate returns the buffer itself. Resampling from
  48000 Hz to 16000 Hz returns \<open>Math.round(L / 3)\<close> samples, which is \<open>(L + 1) div 3\<close>,
  and sample \<open>i\<close> of the output is the linear interpolation of the source samples
  \<open>3 * i\<close> and (capped at the last index) \<open>3 * i + 1\<close> with weights 1 and 0: the
  source sample \<open>3 * i\<close> itself when the samples are finite.
\<close>

theorem resample:
  "downsampleFloat32 buffer R R = buffer \<and>
   length (downsampleFloat32 buffer 48000 16000) = nat (Math_round (real (length buffer) / 3)) \<and>
   length (downsampleFloat32 buffer 48000 16000) = (length buffer + 1) div 3 \<and>
   (\<forall>i < length (downsampleFloat32 buffer 48000 16000).
      3 * i < length buffer \<and>
      downsampleFloat32 buffer 48000 16000 ! i =
        fadd (fmul (buffer ! (3 * i)) (Some 1))
             (fmul (buffer ! min (3 * i + 1) (length buffer - 1)) (Some 0)) \<and>
      (None \<notin> set buffer \<longrightarrow> downsampleFloat32 buffer 48000 16000 ! i = buffer ! (3 * i)))"
proof -
  have d: "downsampleFloat32 buffer 48000 16000
             = map (interpolate buffer 3) [0..<(length buffer + 1) div 3]"
    by (simp add: downsampleFloat32_def new_length)
  have len: "length (downsampleFloat32 buffer 48000 16000) = (length buffer + 1) div 3"
    by (simp add: d)
  have el: "3 * i < length buffer \<and>
      downsampleFloat32 buffer 48000 16000 ! i =
        fadd (fmul (buffer ! (3 * i)) (Some 1))
             (fmul (buffer ! min (3 * i + 1) (length buffer - 1)) (Some 0)) \<and>
      (None \<notin> set buffer \<longrightarrow> downsampleFloat32 buffer 48000 16000 ! i = buffer ! (3 * i))"
    if "i < (length buffer + 1) div 3" for i
  proof -
    from interpolate_3 [OF that]
    have lt: "3 * i < length buffer"
      and e: "interpolate buffer 3 i =
           fadd (fmul (buffer ! (3 * i)) (Some 1))
                (fmul (buffer ! min (3 * i + 1) (length buffer - 1)) (Some 0))" by simp_all
    have n: "downsampleFloat32 buffer 48000 16000 ! i = interpolate buffer 3 i"
      using that by (simp add: d)
    have m: "min (3 * i + 1) (length buffer - 1) < length buffer" using lt by linarith
    have "buffer ! (3 * i) \<noteq> None \<and> buffer ! min (3 * i + 1) (length buffer - 1) \<noteq> None"
      if "None \<notin> set buffer"
      using that lt m by (metis nth_mem)
    then have "None \<notin> set buffer \<longrightarrow> downsampleFloat32 buffer 48000 16000 ! i = buffer ! (3 * i)"
      unfolding n e using finite_mix by blast
    with lt e n show ?thesis by (simp only: simp_thms)
  qed
  have id: "downsampleFloat32 buffer R R = buffer"
    by (simp add: downsampleFloat32_def)
  have len': "length (downsampleFloat32 buffer 48000 16000)
                = nat (Math_round (real (length buffer) / 3))"
    by (simp only: len new_length)
  from el have "\<forall>i < length (downsampleFloat32 buffer 48000 16000).
      3 * i < length buffer \<and>
      downsampleFloat32 buffer 48000 16000 ! i =
        fadd (fmul (buffer ! (3 * i)) (Some 1))
             (fmul (buffer ! min (3 * i + 1) (length buffer - 1)) (Some 0)) \<and>
      (None \<notin> set buffer \<longrightarrow> downsampleFloat32 buffer 48000 16000 ! i = buffer ! (3 * i))"
    unfolding len by blast
  with id len len' show ?thesis by blast
qed



theorem resample_witness:
  "length (downsampleFloat32 [Some 1, Some 2, Some 3, Some 4, Some 5] 48000 16000) = 2 \<and>
   None \<notin> set [Some (1::real), Some 2, Some 3, Some 4, Some 5] \<and>
   downsampleFloat32 [Some 1, Some 2, Some 3, Some 4, Some 5] 48000 16000 ! 1 = Some 4"
proof -
  let ?b = "[Some (1::real), Some 2, Some 3, Some 4, Some 5]"
  note r = resample [of ?b 16000]
  from r have len: "length (downsampleFloat32 ?b 48000 16000) = 2" by simp
  have fin: "None \<notin> set ?b" by simp
  from r len have "None \<notin> set ?b \<longrightarrow> downsampleFloat32 ?b 48000 16000 ! 1 = ?b ! (3 * 1)"
    by (metis one_less_numeral_iff semiring_norm(76))
  with fin have "downsampleFloat32 ?b 48000 16000 ! 1 = Some 4" by simp
  with len fin show ?thesis by simp
qed

subsection \<open>Quantization\<close>

lemma int16_no_wrap:
  "- 32768 \<le> k \<Longrightarrow> k \<le> 32767 \<Longrightarrow> sint (word_of_int k :: 16 word) = k"
  by (simp add: sint_sbintrunc' signed_take_bit_int_eq_self)

lemma truncate_bounds:
  "- 32768 \<le> y \<Longrightarrow> y \<le> 32767 \<Longrightarrow> - 32768 \<le> Math_trunc y \<and> Math_trunc y \<le> 32767"
  by (simp add: Math_trunc_def)

lemma scaled_finite:
  "scaled (Some x) =
     Some (max (- 1) (min 1 x) * (if max (- 1) (min 1 x) < 0 then 32768 else 32767))"
  by (auto simp: scaled_def clamp_def Math_min1_def Math_max_neg1_def negative_def fmul_def Let_def)

lemma scaled_bounds:
  "- 32768 \<le> max (- 1) (min 1 x) * (if max (- 1) (min 1 x) < 0 then 32768 else 32767) \<and>
   max (- 1) (min 1 x) * (if max (- 1) (min 1 x) < 0 then 32768 else 32767) \<le> (32767::real)"
  by (auto simp: max_def min_def)

text \<open>
  C8. A finite sample is clamped to \<open>[-1, 1]\<close> and multiplied by 32768 if the clamped
  value is negative and by 32767 otherwise; the \<open>Int16\<close> stored is that product
  truncated, with no wrap-around, so it lies between -32768 and 32767. A NaN sample is
  stored as 0.
\<close>

theorem quantization:
  "clamp (Some x) = Some (max (- 1) (min 1 x)) \<and>
   - 1 \<le> max (- 1) (min 1 x) \<and> max (- 1) (min 1 x) \<le> 1 \<and>
   sint (ToInt16 (scaled (Some x)))
     = Math_trunc (max (- 1) (min 1 x) * (if max (- 1) (min 1 x) < 0 then 32768 else 32767)) \<and>
   - 32768 \<le> sint (ToInt16 (scaled (Some x))) \<and> sint (ToInt16 (scaled (Some x))) \<le> 32767 \<and>
   sint (ToInt16 (scaled None)) = 0 \<and>
   length (float32ToInt16 float32) = length float32"
proof -
  let ?y = "max (- 1) (min 1 x) * (if max (- 1) (min 1 x) < 0 then 32768 else 32767)"
  from scaled_bounds [of x] have "- 32768 \<le> Math_trunc ?y \<and> Math_trunc ?y \<le> 32767"
    by (intro truncate_bounds) simp_all
  then have s: "sint (word_of_int (Math_trunc ?y) :: 16 word) = Math_trunc ?y"
    and b: "- 32768 \<le> Math_trunc ?y" "Math_trunc ?y \<le> 32767"
    by (simp_all add: int16_no_wrap)
  have t: "sint (ToInt16 (scaled (Some x))) = Math_trunc ?y"
    unfolding scaled_finite ToInt16_def using s by simp
  have c: "clamp (Some x) = Some (max (- 1) (min 1 x))"
    by (simp add: clamp_def Math_min1_def Math_max_neg1_def)
  have n: "sint (ToInt16 (scaled None)) = 0"
    by (simp add: scaled_def clamp_def Math_min1_def Math_max_neg1_def negative_def fmul_def
        ToInt16_def)
  have l: "length (float32ToInt16 float32) = length float32"
    by (simp add: float32ToInt16_def)
  from t b c n l show ?thesis by simp
qed

theorem quantization_witness:
  "map sint (float32ToInt16 [Some 2, Some (- 3), Some (1 / 2), Some (- 1 / 2), None])
     = [32767, - 32768, 16383, - 16384, 0]"
  using quantization [of 2] quantization [of "- 3"] quantization [of "1 / 2"]
    quantization [of "- 1 / 2"]
  by (simp add: float32ToInt16_def Math_trunc_def)

subsection \<open>Releasing the capture pipeline\<close>

lemma stop_tracks_ok:
  "\<forall>c. \<not> throws c \<Longrightarrow>
     stop_tracks throws ts r = (r\<lparr>released := released r @ map StopTrack ts\<rparr>, None)"
  by (induction ts arbitrary: r) simp_all

text \<open>
  C9 as stated fails: with every stage present and the first teardown call raising,
  \<open>stopRecording\<close> ends at that call; the microphone track is not stopped, the context
  is not closed and the source is not disconnected.
\<close>

theorem stop_counterexample:
  "snd (stopRecording processor_fails recording) = Some DisconnectProcessor \<and>
   released (fst (stopRecording processor_fails recording)) = [] \<and>
   streamRef (fst (stopRecording processor_fails recording)) = Some [0] \<and>
   audioCtxRef (fst (stopRecording processor_fails recording)) \<and>
   sourceRef (fst (stopRecording processor_fails recording))"
  by (simp add: stopRecording_def processor_fails_def recording_def)

text \<open>
  C9 (amended). When no teardown call raises, \<open>stopRecording\<close> releases every stage that
  is present, in the order processor, source, context, tracks, and clears every ref and
  the recording flag. There is no exception handler between the calls: when the first
  call raises, the function ends there with nothing released.
\<close>

theorem stop_releases_all:
  "((\<forall>c. \<not> throws c) \<longrightarrow>
     stopRecording throws r =
       (r\<lparr>isRecording := False, streamRef := None, audioCtxRef := False,
           processorRef := False, sourceRef := False,
           released := released r
             @ (if processorRef r then [DisconnectProcessor] else [])
             @ (if sourceRef r then [DisconnectSource] else [])
             @ (if audioCtxRef r then [CloseContext] else [])
             @ (case streamRef r of None \<Rightarrow> [] | Some ts \<Rightarrow> map StopTrack ts)\<rparr>, None)) \<and>
   (processorRef r \<and> throws DisconnectProcessor \<longrightarrow>
     stopRecording throws r = (r, Some DisconnectProcessor))"
  by (auto simp: stopRecording_def stop_tracks_ok Let_def split: option.splits)

theorem stop_releases_all_witness:
  "(\<forall>c. \<not> never c) \<and>
   released (fst (stopRecording never recording))
     = [DisconnectProcessor, DisconnectSource, CloseContext, StopTrack 0] \<and>
   streamRef (fst (stopRecording never recording)) = None \<and>
   processorRef recording \<and> processor_fails DisconnectProcessor \<and>
   stopRecording processor_fails recording = (recording, Some DisconnectProcessor)"
proof -
  have n: "\<forall>c. \<not> never c" by (simp add: never_def)
  have p: "processorRef recording \<and> processor_fails DisconnectProcessor"
    by (simp add: recording_def processor_fails_def)
  from stop_releases_all [of never recording] stop_releases_all [of processor_fails recording] n p
  show ?thesis by (simp add: recording_def)
qed

subsection \<open>Session state machine\<close>

lemma timer_effect_fields [simp]:
  "sessionState (timer_effect b s) = sessionState s"
  "sessionId (timer_effect b s) = sessionId s"
  "isPaused (timer_effect b s) = isPaused s"
  "elapsedSeconds (timer_effect b s) = elapsedSeconds s"
  "sessionSummary (timer_effect b s) = sessionSummary s"
  "hook (timer_effect b s) = hook s"
  "recorderRefs (timer_effect b s) = recorderRefs s"
  by (simp_all add: timer_effect_def)

lemma page_run_snoc:
  "page_run sid el (evs @ [e]) s = page_step sid el (page_run sid el evs s) e"
  by (simp add: page_run_def)

lemma state_change_sets:
  "sessionState (page_step sid el s (Message (StateChange old new ts))) = new"
  by (simp add: Let_def)

text \<open>
  C1 (amended). After any sequence of \<open>state_change\<close> events the mirrored state is the
  \<open>new_state\<close> of the last event, recognized or not (the state before, for the empty
  sequence): the handler stores the value without validating it. Whenever the last
  event carries a recognized value, this is the state the specification describes.
\<close>

theorem mirrored_state_is_last_event:
  "list_all is_state_change evs \<longrightarrow>
     sessionState (page_run sid el (map Message evs) s)
       = (if evs = [] then sessionState s else new_state (last evs)) \<and>
     (evs = [] \<or> recognized (new_state (last evs)) \<longrightarrow>
        sessionState (page_run sid el (map Message evs) s) = mirror_spec (sessionState s) evs)"
proof (induction evs rule: rev_induct)
  case Nil
  show ?case by (simp add: page_run_def mirror_spec_def)
next
  case (snoc m evs)
  show ?case
  proof
    assume "list_all is_state_change (evs @ [m])"
    then obtain old new ts where m: "m = StateChange old new ts"
      by (cases m) (simp_all add: is_state_change_def)
    have "sessionState (page_run sid el (map Message (evs @ [m])) s) = new"
      unfolding m by (simp only: map_append list.map page_run_snoc state_change_sets)
    moreover have "recognized new \<longrightarrow> mirror_spec (sessionState s) (evs @ [m]) = new"
      by (simp add: mirror_spec_def m)
    ultimately show "sessionState (page_run sid el (map Message (evs @ [m])) s)
       = (if evs @ [m] = [] then sessionState s else new_state (last (evs @ [m]))) \<and>
     (evs @ [m] = [] \<or> recognized (new_state (last (evs @ [m]))) \<longrightarrow>
        sessionState (page_run sid el (map Message (evs @ [m])) s)
          = mirror_spec (sessionState s) (evs @ [m]))"
      by (simp add: m)
  qed
qed

text \<open>
  C1 as stated fails: an unrecognized \<open>new_state\<close> is not ignored. After
  \<open>LISTENING\<close> and then the unknown value \<open>BOGUS\<close>, the mirrored state is \<open>BOGUS\<close>,
  where the specification keeps \<open>LISTENING\<close>.
\<close>

theorem unrecognized_state_is_mirrored:
  "sessionState (page_run None 0
      [Message (StateChange ''IDLE'' ''LISTENING'' []),
       Message (StateChange ''LISTENING'' ''BOGUS'' [])] page_listening) = ''BOGUS'' \<and>
   mirror_spec (sessionState page_listening)
      [StateChange ''IDLE'' ''LISTENING'' [], StateChange ''LISTENING'' ''BOGUS'' []] = ''LISTENING''"
  by (simp add: page_run_def mirror_spec_def recognized_def page_listening_def Let_def)

theorem mirrored_state_is_last_event_witness:
  "list_all is_state_change [StateChange ''IDLE'' ''LISTENING'' [], StateChange ''LISTENING'' ''PAUSED'' []] \<and>
   recognized ''PAUSED'' \<and>
   sessionState (page_run None 0
      (map Message [StateChange ''IDLE'' ''LISTENING'' [], StateChange ''LISTENING'' ''PAUSED'' []])
      page_listening) = ''PAUSED'' \<and>
   mirror_spec (sessionState page_listening)
      [StateChange ''IDLE'' ''LISTENING'' [], StateChange ''LISTENING'' ''PAUSED'' []] = ''PAUSED''"
  using mirrored_state_is_last_event
    [of "[StateChange ''IDLE'' ''LISTENING'' [], StateChange ''LISTENING'' ''PAUSED'' []]"
      None 0 page_listening]
  by (auto simp: is_state_change_def recognized_def)


lemma stopRecording_ok: "\<forall>c. \<not> throws c \<Longrightarrow> snd (stopRecording throws r) = None"
  by (auto simp: stopRecording_def stop_tracks_ok Let_def split: option.splits)

lemma protocol_path:
  "sessionSummary (page_step sid el s (Message (ConsultEnded soap ts))) = Some (placeholder sid el soap)"
  "sessionState (page_step sid el s (Message (ConsultEnded soap ts))) = ''COMPLETED''"
  "sessionId (page_step sid el s (Message (ConsultEnded soap ts))) = sessionId s"
  "hook (page_step sid el s (Message (ConsultEnded soap ts))) = hook s"
  by (simp_all add: placeholder_def)

lemma rest_path:
  assumes "truthy (sessionId s)" "\<forall>c. \<not> throws c"
  shows "sessionSummary (page_step sid el s (EndConsult throws (Inr resp))) = Some resp"
    "sessionState (page_step sid el s (EndConsult throws (Inr resp))) = ''IDLE''"
    "sessionId (page_step sid el s (EndConsult throws (Inr resp))) = None"
    "hook (page_step sid el s (EndConsult throws (Inr resp))) = disconnect (hook s)"
proof -
  obtain r where "stopRecording throws (recorderRefs s) = (r, None)"
    using stopRecording_ok [OF assms(2), of "recorderRefs s"] by (cases "stopRecording throws (recorderRefs s)") simp
  with assms(1) show
    "sessionSummary (page_step sid el s (EndConsult throws (Inr resp))) = Some resp"
    "sessionState (page_step sid el s (EndConsult throws (Inr resp))) = ''IDLE''"
    "sessionId (page_step sid el s (EndConsult throws (Inr resp))) = None"
    "hook (page_step sid el s (EndConsult throws (Inr resp))) = disconnect (hook s)"
    by (simp_all add: handleEndConsult_def)
qed

text \<open>
  C4 (amended). In a session whose recorder stops without raising, both completion paths
  leave a session summary to show, but they end in different states. The \<open>consult_ended\<close>
  event sets the state to \<open>COMPLETED\<close>, keeps the session id and the connection, and
  stores a summary built from the note with placeholder billing. The REST acknowledgment
  sets the state to \<open>IDLE\<close>, clears the session id, disconnects the channel and stores
  the REST response. Neither path looks at what the other did: when both occur, each
  sets the summary and the later one's summary stays.
\<close>

theorem completion_paths:
  "truthy (sessionId s) \<and> (\<forall>c. \<not> throws c) \<longrightarrow>
     sessionSummary (page_step sid el s (Message (ConsultEnded soap ts)))
       = Some (placeholder sid el soap) \<and>
     sessionState (page_step sid el s (Message (ConsultEnded soap ts))) = ''COMPLETED'' \<and>
     sessionId (page_step sid el s (Message (ConsultEnded soap ts))) = sessionId s \<and>
     hook (page_step sid el s (Message (ConsultEnded soap ts))) = hook s \<and>
     sessionSummary (page_step sid el s (EndConsult throws (Inr resp))) = Some resp \<and>
     sessionState (page_step sid el s (EndConsult throws (Inr resp))) = ''IDLE'' \<and>
     sessionId (page_step sid el s (EndConsult throws (Inr resp))) = None \<and>
     hook (page_step sid el s (EndConsult throws (Inr resp))) = disconnect (hook s) \<and>
     sessionSummary (page_run sid el [Message (ConsultEnded soap ts), EndConsult throws (Inr resp)] s)
       = Some resp \<and>
     sessionSummary (page_run sid el [EndConsult throws (Inr resp), Message (ConsultEnded soap ts)] s)
       = Some (placeholder sid el soap)"
proof
  assume a: "truthy (sessionId s) \<and> (\<forall>c. \<not> throws c)"
  then have t: "truthy (sessionId s)" and n: "\<forall>c. \<not> throws c" by simp_all
  let ?p = "page_step sid el s (Message (ConsultEnded soap ts))"
  have "truthy (sessionId ?p)" using t by (simp only: protocol_path)
  from rest_path(1) [OF this n]
  have both1: "sessionSummary (page_run sid el [Message (ConsultEnded soap ts), EndConsult throws (Inr resp)] s)
       = Some resp"
    by (simp add: page_run_def)
  have both2: "sessionSummary (page_run sid el [EndConsult throws (Inr resp), Message (ConsultEnded soap ts)] s)
       = Some (placeholder sid el soap)"
    unfolding page_run_def by (simp only: foldl.simps protocol_path)
  from protocol_path [of sid el s soap ts] rest_path [OF t n, of sid el resp] both1 both2
  show "sessionSummary (page_step sid el s (Message (ConsultEnded soap ts)))
       = Some (placeholder sid el soap) \<and>
     sessionState (page_step sid el s (Message (ConsultEnded soap ts))) = ''COMPLETED'' \<and>
     sessionId (page_step sid el s (Message (ConsultEnded soap ts))) = sessionId s \<and>
     hook (page_step sid el s (Message (ConsultEnded soap ts))) = hook s \<and>
     sessionSummary (page_step sid el s (EndConsult throws (Inr resp))) = Some resp \<and>
     sessionState (page_step sid el s (EndConsult throws (Inr resp))) = ''IDLE'' \<and>
     sessionId (page_step sid el s (EndConsult throws (Inr resp))) = None \<and>
     hook (page_step sid el s (EndConsult throws (Inr resp))) = disconnect (hook s) \<and>
     sessionSummary (page_run sid el [Message (ConsultEnded soap ts), EndConsult throws (Inr resp)] s)
       = Some resp \<and>
     sessionSummary (page_run sid el [EndConsult throws (Inr resp), Message (ConsultEnded soap ts)] s)
       = Some (placeholder sid el soap)"
    by (simp only: simp_thms)
qed

text \<open>
  C4 as stated fails: from the same listening session the two paths end in the states
  \<open>COMPLETED\<close> and \<open>IDLE\<close> with different summaries, and when the event arrives after
  the REST acknowledgment it replaces the summary the acknowledgment stored.
\<close>

theorem completion_paths_differ:
  "sessionState (page_step (Some ''S1'') 0 page_listening (Message (ConsultEnded ''note'' []))) = ''COMPLETED'' \<and>
   sessionState (page_step (Some ''S1'') 0 page_listening (EndConsult never (Inr response_ok))) = ''IDLE'' \<and>
   sessionSummary (page_step (Some ''S1'') 0 page_listening (Message (ConsultEnded ''note'' [])))
     \<noteq> sessionSummary (page_step (Some ''S1'') 0 page_listening (EndConsult never (Inr response_ok))) \<and>
   sessionSummary (page_step (Some ''S1'') 0 page_listening (EndConsult never (Inr response_ok)))
     = Some response_ok \<and>
   sessionSummary (page_run (Some ''S1'') 0
       [EndConsult never (Inr response_ok), Message (ConsultEnded ''note'' [])] page_listening)
     \<noteq> Some response_ok"
  by (simp add: page_run_def page_listening_def handleEndConsult_def stopRecording_def
      recorder_init_def truthy_def never_def response_ok_def or_else_def Let_def)

theorem completion_paths_witness:
  "truthy (sessionId page_listening) \<and> (\<forall>c. \<not> never c) \<and>
   sessionState (page_step None 0 page_listening (Message (ConsultEnded ''note'' []))) = ''COMPLETED'' \<and>
   sessionState (page_step None 0 page_listening (EndConsult never (Inr response_ok))) = ''IDLE'' \<and>
   sessionSummary (page_run None 0
       [Message (ConsultEnded ''note'' []), EndConsult never (Inr response_ok)] page_listening)
     = Some response_ok"
proof -
  have h: "truthy (sessionId page_listening) \<and> (\<forall>c. \<not> never c)"
    by (simp add: page_listening_def truthy_def never_def)
  from completion_paths [of page_listening never None 0 "''note''" "[]" response_ok] h
  show ?thesis by simp
qed

subsection \<open>Elapsed duration\<close>

lemma page_run_Nil: "page_run sid el [] s = s"
  by (simp add: page_run_def)

lemma page_run_Cons: "page_run sid el (e # es) s = page_run sid el es (page_step sid el s e)"
  by (simp add: page_run_def)

lemma message_keeps_elapsed:
  "elapsedSeconds (page_step sid el s (Message m)) = elapsedSeconds s"
  by (cases m) (simp_all add: Let_def)

lemma idle_time: "interval s = None \<Longrightarrow> time_passes d s = s"
  by (simp add: time_passes_def)

lemma fresh_interval:
  "interval s = Some 1000 \<Longrightarrow> elapsedSeconds (time_passes d s) = elapsedSeconds s + d div 1000"
  by (cases "d < 1000") (simp_all add: time_passes_def le_div_geq)

lemma effect_ok_timer: "effect_ok prev \<Longrightarrow> interval s = interval prev \<Longrightarrow> effect_ok (timer_effect prev s)"
  by (auto simp: effect_ok_def timer_effect_def counting_def)

lemma message_keeps_interval: "interval (handleWebSocketMessage sid el m s) = interval s"
  by (cases m) (simp_all add: Let_def)

lemma effect_ok_message: "effect_ok s \<Longrightarrow> effect_ok (page_step sid el s (Message m))"
  by (simp only: page_step.simps effect_ok_timer message_keeps_interval)

lemma effect_ok_time: "effect_ok s \<Longrightarrow> effect_ok (page_step sid el s (Elapsed d))"
  by (auto simp: effect_ok_def time_passes_def counting_def split: option.splits)

lemma end_keeps_interval: "interval (handleEndConsult throws resp s) = interval s"
  by (simp add: handleEndConsult_def split: prod.splits option.splits sum.splits)

lemma effect_ok_end: "effect_ok s \<Longrightarrow> effect_ok (page_step sid el s (EndConsult throws resp))"
  by (auto simp: effect_ok_def timer_effect_def counting_def end_keeps_interval)

lemma state_change_fields:
  "sessionState (handleWebSocketMessage sid el (StateChange old new ts) s) = new"
  "sessionId (handleWebSocketMessage sid el (StateChange old new ts) s) = sessionId s"
  "elapsedSeconds (handleWebSocketMessage sid el (StateChange old new ts) s) = elapsedSeconds s"
  "interval (handleWebSocketMessage sid el (StateChange old new ts) s) = interval s"
  by (simp_all add: Let_def)

lemma state_change_listening:
  "isPaused (handleWebSocketMessage sid el (StateChange old ''LISTENING'' ts) s) = False"
  by (simp add: Let_def)

lemma timer_effect_interval:
  "interval (timer_effect prev s) =
     (if sessionId s = sessionId prev \<and> sessionState s = sessionState prev \<and>
         isPaused s = isPaused prev
      then interval s else if counting s then Some 1000 else None)"
  by (simp add: timer_effect_def)

lemma leave_listening:
  assumes "effect_ok s" "new \<noteq> ''LISTENING''"
  shows "interval (page_step sid el s (Message (StateChange old new ts))) = None"
    and "sessionId (page_step sid el s (Message (StateChange old new ts))) = sessionId s"
    and "elapsedSeconds (page_step sid el s (Message (StateChange old new ts))) = elapsedSeconds s"
    and "sessionState (page_step sid el s (Message (StateChange old new ts))) = new"
proof -
  let ?h = "handleWebSocketMessage sid el (StateChange old new ts) s"
  have n: "\<not> counting ?h"
    using assms(2) by (simp only: counting_def state_change_fields) simp
  have "interval s = None" if "sessionState ?h = sessionState s"
    using that assms by (simp only: state_change_fields effect_ok_def counting_def) auto
  then show "interval (page_step sid el s (Message (StateChange old new ts))) = None"
    using n by (simp only: page_step.simps timer_effect_interval state_change_fields) auto
  show "sessionId (page_step sid el s (Message (StateChange old new ts))) = sessionId s"
    "elapsedSeconds (page_step sid el s (Message (StateChange old new ts))) = elapsedSeconds s"
    "sessionState (page_step sid el s (Message (StateChange old new ts))) = new"
    by (simp_all only: page_step.simps timer_effect_fields state_change_fields)
qed

lemma enter_listening:
  assumes "interval s = None" "truthy (sessionId s)" "effect_ok s"
  shows "interval (page_step sid el s (Message (StateChange old ''LISTENING'' ts))) = Some 1000"
    and "elapsedSeconds (page_step sid el s (Message (StateChange old ''LISTENING'' ts))) = elapsedSeconds s"
proof -
  let ?h = "handleWebSocketMessage sid el (StateChange old ''LISTENING'' ts) s"
  have c: "counting ?h"
    using assms(2) by (simp only: counting_def state_change_fields state_change_listening) simp
  have "\<not> counting s" using assms(1,3) by (simp add: effect_ok_def)
  then have "\<not> (sessionId ?h = sessionId s \<and> sessionState ?h = sessionState s \<and>
         isPaused ?h = isPaused s)"
    using assms(2) by (simp only: counting_def state_change_fields state_change_listening) auto
  then show "interval (page_step sid el s (Message (StateChange old ''LISTENING'' ts))) = Some 1000"
    using c by (simp only: page_step.simps timer_effect_interval if_False if_True)
  show "elapsedSeconds (page_step sid el s (Message (StateChange old ''LISTENING'' ts))) = elapsedSeconds s"
    by (simp only: page_step.simps timer_effect_fields state_change_fields)
qed

text \<open>
  C6. In a state where the timer effect is in step with the component state, no message
  changes the elapsed-duration counter, and time that passes while the mirrored state
  is not \<open>LISTENING\<close>, or while paused, changes nothing at all. When a \<open>state_change\<close>
  leaves \<open>LISTENING\<close>, the counter stays at its value however long the time that follows;
  when a later \<open>state_change\<close> re-enters \<open>LISTENING\<close> in an existing session, the counter
  goes on from that value, one second per full 1000 ms since the re-entry, and the
  time spent outside \<open>LISTENING\<close> is never added.
\<close>

theorem duration_accrual:
  "effect_ok s \<longrightarrow>
     elapsedSeconds (page_step sid el s (Message m)) = elapsedSeconds s \<and>
     effect_ok (page_step sid el s (Message m)) \<and>
     effect_ok (page_step sid el s (Elapsed d)) \<and>
     (sessionState s \<noteq> ''LISTENING'' \<or> isPaused s \<longrightarrow>
        page_step sid el s (Elapsed d) = s) \<and>
     (new \<noteq> ''LISTENING'' \<longrightarrow>
        elapsedSeconds (page_run sid el
           [Message (StateChange old new ts), Elapsed d] s) = elapsedSeconds s) \<and>
     (new \<noteq> ''LISTENING'' \<and> truthy (sessionId s) \<longrightarrow>
        elapsedSeconds (page_run sid el
           [Message (StateChange old new ts), Elapsed d,
            Message (StateChange new ''LISTENING'' ts'), Elapsed d'] s)
          = elapsedSeconds s + d' div 1000)"
proof
  assume ok: "effect_ok s"
  let ?a = "page_step sid el s (Message (StateChange old new ts))"
  have idle: "page_step sid el s (Elapsed d) = s" if "sessionState s \<noteq> ''LISTENING'' \<or> isPaused s"
    using ok that by (auto simp: effect_ok_def counting_def idle_time)
  have paused: "page_step sid el ?a (Elapsed d) = ?a" if "new \<noteq> ''LISTENING''"
    using leave_listening(1) [OF ok that] by (simp add: idle_time)
  have leave: "elapsedSeconds (page_run sid el [Message (StateChange old new ts), Elapsed d] s)
                 = elapsedSeconds s" if "new \<noteq> ''LISTENING''"
    using leave_listening(3) [OF ok that]
    by (simp only: page_run_Cons page_run_Nil paused [OF that])
  have resume: "elapsedSeconds (page_run sid el
           [Message (StateChange old new ts), Elapsed d,
            Message (StateChange new ''LISTENING'' ts'), Elapsed d'] s)
          = elapsedSeconds s + d' div 1000" if "new \<noteq> ''LISTENING'' \<and> truthy (sessionId s)"
  proof -
    from that have n: "new \<noteq> ''LISTENING''" and t: "truthy (sessionId s)" by simp_all
    have i: "interval ?a = None" by (rule leave_listening(1) [OF ok n])
    have sid: "truthy (sessionId ?a)" using t by (simp only: leave_listening(2) [OF ok n])
    have e: "elapsedSeconds ?a = elapsedSeconds s" by (rule leave_listening(3) [OF ok n])
    have ok': "effect_ok ?a" by (rule effect_ok_message [OF ok])
    let ?b = "page_step sid el ?a (Message (StateChange new ''LISTENING'' ts'))"
    have "interval ?b = Some 1000" by (rule enter_listening(1) [OF i sid ok'])
    moreover have "elapsedSeconds ?b = elapsedSeconds s"
      by (simp only: enter_listening(2) [OF i sid ok'] e)
    ultimately
    have "elapsedSeconds (time_passes d' ?b) = elapsedSeconds s + d' div 1000"
      using fresh_interval [of ?b d'] by (simp only:)
    then have "elapsedSeconds (page_step sid el ?b (Elapsed d')) = elapsedSeconds s + d' div 1000"
      by (simp only: page_step.simps)
    then show ?thesis
      by (simp only: page_run_Cons page_run_Nil paused [OF n])
  qed
  show "elapsedSeconds (page_step sid el s (Message m)) = elapsedSeconds s \<and>
     effect_ok (page_step sid el s (Message m)) \<and>
     effect_ok (page_step sid el s (Elapsed d)) \<and>
     (sessionState s \<noteq> ''LISTENING'' \<or> isPaused s \<longrightarrow>
        page_step sid el s (Elapsed d) = s) \<and>
     (new \<noteq> ''LISTENING'' \<longrightarrow>
        elapsedSeconds (page_run sid el
           [Message (StateChange old new ts), Elapsed d] s) = elapsedSeconds s) \<and>
     (new \<noteq> ''LISTENING'' \<and> truthy (sessionId s) \<longrightarrow>
        elapsedSeconds (page_run sid el
           [Message (StateChange old new ts), Elapsed d,
            Message (StateChange new ''LISTENING'' ts'), Elapsed d'] s)
          = elapsedSeconds s + d' div 1000)"
    using message_keeps_elapsed [of sid el s m] effect_ok_message [OF ok, of sid el m]
      effect_ok_time [OF ok, of sid el d] idle leave resume
    by blast
qed

theorem duration_accrual_witness:
  "effect_ok page_listening \<and> ''PAUSED'' \<noteq> ''LISTENING'' \<and> truthy (sessionId page_listening) \<and>
   elapsedSeconds (page_run None 0
      [Message (StateChange ''LISTENING'' ''PAUSED'' []), Elapsed 60000,
       Message (StateChange ''PAUSED'' ''LISTENING'' []), Elapsed 3999] page_listening) = 3 \<and>
   effect_ok page_paused \<and> isPaused page_paused \<and>
   elapsedSeconds (page_step None 0 page_paused (Elapsed 60000)) = 7"
proof -
  have h: "effect_ok page_listening" and t: "truthy (sessionId page_listening)"
    and e: "elapsedSeconds page_listening = 0"
    by (simp_all add: effect_ok_def counting_def page_listening_def truthy_def)
  have h': "effect_ok page_paused" and p: "isPaused page_paused"
    and e': "elapsedSeconds page_paused = 7"
    by (simp_all add: effect_ok_def counting_def page_paused_def)
  from duration_accrual [of page_paused None 0 "Other []" 60000] h' p
  have "page_step None 0 page_paused (Elapsed 60000) = page_paused" by blast
  with duration_accrual [of page_listening None 0 "Other []" 60000 "''PAUSED''"
      "''LISTENING''" "[]" "[]" 3999] h t e h' p e'
  show ?thesis by simp
qed

end
